theory Spec2Isabelle
  imports Main "HOL-Library.Word"
begin

section \<open>The logging singleton of OpenZWave (cpp/src/platform/Log.cpp)\<close>

text \<open>
  The file defines the static part of class \<open>Log\<close>: the instance pointer
  \<open>s_instance\<close>, the static vector \<open>m_pImpls\<close> of registered sinks and the
  file-level flag \<open>s_dologging\<close>. Sinks (\<open>i_LogImpl\<close>) and the mutex are
  collaborators whose code lives elsewhere; every call the manager makes on
  them is recorded, in order, in a ghost field \<open>calls\<close> of the state, so
  that "which sink method was invoked, and when" is a property of that list.

  The manager owns its sinks through raw pointers and frees them with
  \<open>delete\<close>. A second ghost field, \<open>deleted\<close>, holds the addresses of the
  sinks that have been deleted; deleting such an address again, or calling a
  method through it, is undefined behaviour. The model stops there with an
  \<open>error\<close>: every entry point returns \<open>error + result\<close>, and \<open>Inl\<close> means
  that the call does not return.
\<close>

subsection \<open>Data\<close>

text \<open>
  \<open>LogLevel\<close> is declared in platform/Log.h. The enumerators are listed in
  the order of the name table \<open>LogLevelString\<close> of Log.cpp, which is indexed
  by the enumeration value; \<open>LogLevel_val\<close> is that value.
\<close>

datatype LogLevel =
    LogLevel_Invalid
  | LogLevel_None
  | LogLevel_Always
  | LogLevel_Fatal
  | LogLevel_Error
  | LogLevel_Warning
  | LogLevel_Alert
  | LogLevel_Info
  | LogLevel_Detail
  | LogLevel_Debug
  | LogLevel_StreamDetail
  | LogLevel_Internal

fun LogLevel_val :: "LogLevel \<Rightarrow> nat" where
  "LogLevel_val LogLevel_Invalid = 0"
| "LogLevel_val LogLevel_None = 1"
| "LogLevel_val LogLevel_Always = 2"
| "LogLevel_val LogLevel_Fatal = 3"
| "LogLevel_val LogLevel_Error = 4"
| "LogLevel_val LogLevel_Warning = 5"
| "LogLevel_val LogLevel_Alert = 6"
| "LogLevel_val LogLevel_Info = 7"
| "LogLevel_val LogLevel_Detail = 8"
| "LogLevel_val LogLevel_Debug = 9"
| "LogLevel_val LogLevel_StreamDetail = 10"
| "LogLevel_val LogLevel_Internal = 11"

text \<open>Heap objects are known by their address only.\<close>

type_synonym ptr = nat

text \<open>The variadic arguments of \<open>Write\<close>; the manager only passes them on.\<close>

type_synonym va_list = "string list"

text \<open>Calls made on the collaborators.\<close>

datatype event =
    Mutex_new ptr
  | Mutex_Lock ptr
  | Mutex_Unlock ptr
  | Mutex_Release ptr
  | LogImpl_new ptr string bool bool LogLevel
  | Impl_delete ptr
  | Impl_Write ptr LogLevel "8 word" string va_list
  | Impl_SetLoggingState ptr LogLevel
  | Impl_SetLogFileName ptr string

text \<open>
  Undefined behaviour on a sink pointer: \<open>delete\<close> of an object already
  deleted, and a virtual call through a pointer to a deleted object.
\<close>

datatype error =
    Double_delete ptr
  | Call_after_delete ptr

text \<open>The only non-static member of a \<open>Log\<close> object.\<close>

record Log =
  m_logMutex :: ptr

text \<open>
  The static storage. \<open>m_pImpls\<close> is a static member: it is written
  \<open>s_instance->m_pImpls\<close> in most places, but there is one vector for the
  process and it outlives every instance. \<open>deleted\<close> and \<open>calls\<close> are the
  ghost fields. An address leaves \<open>deleted\<close> when the constructor's \<open>new\<close>
  returns it again; a sink handed in by a caller is a live object exactly
  when its address is not in \<open>deleted\<close>.
\<close>

record state =
  s_instance :: "Log option"
  m_pImpls :: "ptr list"
  s_dologging :: bool
  deleted :: "ptr set"
  calls :: "event list"

text \<open>Static initialisation: null pointer, empty vector, \<open>false\<close>.\<close>

definition initial_state :: state where
  "initial_state =
     \<lparr>s_instance = None, m_pImpls = [], s_dologging = False, deleted = {}, calls = []\<rparr>"

subsection \<open>The two loops\<close>

text \<open>
  \<open>for (it = begin(); it != end(); it++) (*it)->f(...)\<close>: one call per
  element, front to back. The call through a pointer to a deleted sink is
  where the loop stops.
\<close>

fun for_each ::
  "(ptr \<Rightarrow> event) \<Rightarrow> ptr set \<Rightarrow> ptr list \<Rightarrow> event list \<Rightarrow> error + event list" where
  "for_each f dead [] cs = Inr cs"
| "for_each f dead (it # rest) cs =
     (if it \<in> dead then Inl (Call_after_delete it)
      else for_each f dead rest (cs @ [f it]))"

text \<open>
  \<open>for (it = begin(); it != end();) { lc = *it; delete lc; it = erase(it); }\<close>:
  deletes the front element and erases it until the vector is empty. An
  element that was deleted before, by an earlier round of this loop when the
  vector holds it twice, stops the loop. The result is the vector left over,
  the deleted addresses and the calls made.
\<close>

fun delete_all ::
  "ptr list \<Rightarrow> ptr set \<Rightarrow> event list \<Rightarrow> error + (ptr list \<times> ptr set \<times> event list)" where
  "delete_all [] dead cs = Inr ([], dead, cs)"
| "delete_all (lc # rest) dead cs =
     (if lc \<in> dead then Inl (Double_delete lc)
      else delete_all rest (insert lc dead) (cs @ [Impl_delete lc]))"

subsection \<open>Constructor and destructor\<close>

text \<open>
  The addresses returned by the two \<open>new\<close> expressions of the constructor
  are inputs of the model: \<open>mtx\<close> for the mutex, \<open>impl\<close> for the default
  sink, which is a live object from then on. The member initialiser runs
  before the body.
\<close>

definition Log_ctor ::
  "ptr \<Rightarrow> ptr \<Rightarrow> string \<Rightarrow> bool \<Rightarrow> bool \<Rightarrow> LogLevel \<Rightarrow> state \<Rightarrow> Log \<times> state" where
  "Log_ctor mtx impl filename bAppend bConsoleOutput saveLevel st =
     (let st1 = st\<lparr>calls := calls st @ [Mutex_new mtx]\<rparr>;
          st2 = (if length (m_pImpls st1) = 0
                 then st1\<lparr>m_pImpls := m_pImpls st1 @ [impl],
                          deleted := deleted st1 - {impl},
                          calls := calls st1 @
                            [LogImpl_new impl filename bAppend bConsoleOutput saveLevel]\<rparr>
                 else st1)
      in (\<lparr>m_logMutex = mtx\<rparr>, st2))"

definition Log_dtor :: "Log \<Rightarrow> state \<Rightarrow> error + state" where
  "Log_dtor this st =
     (let cs1 = calls st @ [Mutex_Release (m_logMutex this)]
      in case delete_all (m_pImpls st) (deleted st) cs1 of
           Inl e \<Rightarrow> Inl e
         | Inr (impls, dead, cs2) \<Rightarrow> Inr (st\<lparr>m_pImpls := impls, deleted := dead, calls := cs2\<rparr>))"

subsection \<open>The static interface\<close>

text \<open>\<open>delete s_instance\<close> runs the destructor unless the pointer is null.\<close>

definition Destroy :: "state \<Rightarrow> error + state" where
  "Destroy st =
     (case (case s_instance st of None \<Rightarrow> Inr st | Some this \<Rightarrow> Log_dtor this st) of
        Inl e \<Rightarrow> Inl e
      | Inr st1 \<Rightarrow> Inr (st1\<lparr>s_instance := None\<rparr>))"

text \<open>\<open>Create\<close> returns \<open>s_instance\<close>, here the first component.\<close>

definition Create ::
  "ptr \<Rightarrow> ptr \<Rightarrow> string \<Rightarrow> bool \<Rightarrow> bool \<Rightarrow> LogLevel \<Rightarrow> state \<Rightarrow>
     error + (Log option \<times> state)" where
  "Create mtx impl filename bAppend bConsoleOutput saveLevel st =
     (if s_instance st = None
      then (let (this, st1) = Log_ctor mtx impl filename bAppend bConsoleOutput saveLevel st;
                st3 = st1\<lparr>s_instance := Some this, s_dologging := True\<rparr>
            in Inr (s_instance st3, st3))
      else (case Destroy st of
              Inl e \<Rightarrow> Inl e
            | Inr st1 \<Rightarrow>
                (let (this, st2) = Log_ctor mtx impl filename bAppend bConsoleOutput saveLevel st1;
                     st3 = st2\<lparr>s_instance := Some this, s_dologging := True\<rparr>
                 in Inr (s_instance st3, st3))))"

text \<open>
  \<open>SetLoggingClass\<close> reaches the static vector through \<open>s_instance\<close> and
  reads no member of the instance; the model updates the vector whether an
  instance exists or not. Calling it with no instance is ruled out by the
  callers' contract (\<open>call_ok\<close> below). The pointer is pushed as it is: if
  the loop has just deleted the object it points to, the vector now holds a
  pointer to a deleted sink.
\<close>

definition SetLoggingClass :: "ptr \<Rightarrow> bool \<Rightarrow> state \<Rightarrow> error + (bool \<times> state)" where
  "SetLoggingClass LogClass Append st =
     (case (if \<not> Append
            then (case delete_all (m_pImpls st) (deleted st) (calls st) of
                    Inl e \<Rightarrow> Inl e
                  | Inr (impls, dead, cs) \<Rightarrow>
                      Inr (st\<lparr>m_pImpls := impls, deleted := dead, calls := cs\<rparr>))
            else Inr st) of
        Inl e \<Rightarrow> Inl e
      | Inr st1 \<Rightarrow> Inr (True, st1\<lparr>m_pImpls := m_pImpls st1 @ [LogClass]\<rparr>))"

text \<open>The first overload of \<open>Write\<close>: no node id, the sinks get 0.\<close>

definition Write :: "LogLevel \<Rightarrow> string \<Rightarrow> va_list \<Rightarrow> state \<Rightarrow> error + state" where
  "Write level format args st =
     (case s_instance st of
        None \<Rightarrow> Inr st
      | Some this \<Rightarrow>
          if s_dologging st \<and> length (m_pImpls st) > 0
          then (let cs1 = calls st @ [Mutex_Lock (m_logMutex this)]
                in case for_each (\<lambda>it. Impl_Write it level 0 format args)
                          (deleted st) (m_pImpls st) cs1 of
                     Inl e \<Rightarrow> Inl e
                   | Inr cs2 \<Rightarrow> Inr (st\<lparr>calls := cs2 @ [Mutex_Unlock (m_logMutex this)]\<rparr>))
          else Inr st)"

text \<open>The second overload, with a node id.\<close>

definition Write_node ::
  "LogLevel \<Rightarrow> 8 word \<Rightarrow> string \<Rightarrow> va_list \<Rightarrow> state \<Rightarrow> error + state" where
  "Write_node level nodeId format args st =
     (case s_instance st of
        None \<Rightarrow> Inr st
      | Some this \<Rightarrow>
          if s_dologging st \<and> length (m_pImpls st) > 0
          then (let cs1 = (if level \<noteq> LogLevel_Internal
                           then calls st @ [Mutex_Lock (m_logMutex this)] else calls st)
                in case for_each (\<lambda>it. Impl_Write it level nodeId format args)
                          (deleted st) (m_pImpls st) cs1 of
                     Inl e \<Rightarrow> Inl e
                   | Inr cs2 \<Rightarrow>
                       Inr (st\<lparr>calls := (if level \<noteq> LogLevel_Internal
                                          then cs2 @ [Mutex_Unlock (m_logMutex this)]
                                          else cs2)\<rparr>))
          else Inr st)"

text \<open>
  The banner of both \<open>SetLoggingState\<close> overloads: the text "Logging started"
  followed by two line feeds.
\<close>

definition Logging_started :: string where
  "Logging_started = ''Logging started'' @ [CHR 0x0A, CHR 0x0A]"

definition SetLoggingState_bool :: "bool \<Rightarrow> state \<Rightarrow> error + state" where
  "SetLoggingState_bool dologging st =
     (let prevLogging = s_dologging st;
          st1 = st\<lparr>s_dologging := dologging\<rparr>
      in if \<not> prevLogging \<and> s_dologging st1
         then Write LogLevel_Always Logging_started [] st1
         else Inr st1)"

definition SetLoggingState_level :: "LogLevel \<Rightarrow> state \<Rightarrow> error + state" where
  "SetLoggingState_level saveLevel st =
     (let prevLogging = s_dologging st;
          st1 = (if LogLevel_val saveLevel > LogLevel_val LogLevel_Always
                 then st\<lparr>s_dologging := True\<rparr>
                 else st\<lparr>s_dologging := False\<rparr>)
      in case (case s_instance st1 of
                 None \<Rightarrow> Inr st1
               | Some this \<Rightarrow>
                   if s_dologging st1 \<and> length (m_pImpls st1) > 0
                   then (let cs1 = calls st1 @ [Mutex_Lock (m_logMutex this)]
                         in case for_each (\<lambda>it. Impl_SetLoggingState it saveLevel)
                                   (deleted st1) (m_pImpls st1) cs1 of
                              Inl e \<Rightarrow> Inl e
                            | Inr cs2 \<Rightarrow>
                                Inr (st1\<lparr>calls := cs2 @ [Mutex_Unlock (m_logMutex this)]\<rparr>))
                   else Inr st1) of
           Inl e \<Rightarrow> Inl e
         | Inr st2 \<Rightarrow>
             if \<not> prevLogging \<and> s_dologging st2
             then Write LogLevel_Always Logging_started [] st2
             else Inr st2)"

definition GetLoggingState :: "state \<Rightarrow> bool" where
  "GetLoggingState st = s_dologging st"

definition SetLogFileName :: "string \<Rightarrow> state \<Rightarrow> error + state" where
  "SetLogFileName filename st =
     (case s_instance st of
        None \<Rightarrow> Inr st
      | Some this \<Rightarrow>
          if s_dologging st \<and> length (m_pImpls st) > 0
          then (let cs1 = calls st @ [Mutex_Lock (m_logMutex this)]
                in case for_each (\<lambda>it. Impl_SetLogFileName it filename)
                          (deleted st) (m_pImpls st) cs1 of
                     Inl e \<Rightarrow> Inl e
                   | Inr cs2 \<Rightarrow> Inr (st\<lparr>calls := cs2 @ [Mutex_Unlock (m_logMutex this)]\<rparr>))
          else Inr st)"

subsection \<open>Calls as data\<close>

text \<open>
  One constructor per entry point of the static interface, and the state
  each call leaves behind. A program using the log is a list of such calls;
  it stops at the first call that does not return.
\<close>

datatype call =
    Call_Create ptr ptr string bool bool LogLevel
  | Call_Destroy
  | Call_SetLoggingClass ptr bool
  | Call_SetLoggingState_bool bool
  | Call_SetLoggingState_level LogLevel
  | Call_GetLoggingState
  | Call_Write LogLevel string va_list
  | Call_Write_node LogLevel "8 word" string va_list
  | Call_SetLogFileName string

fun run_call :: "call \<Rightarrow> state \<Rightarrow> error + state" where
  "run_call (Call_Create mtx impl fn ap co lv) st = map_sum id snd (Create mtx impl fn ap co lv st)"
| "run_call Call_Destroy st = Destroy st"
| "run_call (Call_SetLoggingClass lc ap) st = map_sum id snd (SetLoggingClass lc ap st)"
| "run_call (Call_SetLoggingState_bool b) st = SetLoggingState_bool b st"
| "run_call (Call_SetLoggingState_level lv) st = SetLoggingState_level lv st"
| "run_call Call_GetLoggingState st = Inr st"
| "run_call (Call_Write lv fmt args) st = Write lv fmt args st"
| "run_call (Call_Write_node lv n fmt args) st = Write_node lv n fmt args st"
| "run_call (Call_SetLogFileName fn) st = SetLogFileName fn st"

fun run_calls :: "call list \<Rightarrow> state \<Rightarrow> error + state" where
  "run_calls [] st = Inr st"
| "run_calls (c # cs) st =
     (case run_call c st of Inl e \<Rightarrow> Inl e | Inr st1 \<Rightarrow> run_calls cs st1)"

fun is_Write_call :: "call \<Rightarrow> bool" where
  "is_Write_call (Call_Write lv fmt args) = True"
| "is_Write_call (Call_Write_node lv n fmt args) = True"
| "is_Write_call c = False"



text \<open>Every registered sink is a live object.\<close>

definition sinks_live :: "state \<Rightarrow> bool" where
  "sinks_live st = list_all (\<lambda>p. p \<notin> deleted st) (m_pImpls st)"

text \<open>
  Sinks are registered only while an instance exists, and the destructor
  empties the vector: with no instance there is no sink.
\<close>

definition log_inv :: "state \<Rightarrow> bool" where
  "log_inv st = (case s_instance st of None \<Rightarrow> m_pImpls st = [] | Some this \<Rightarrow> True)"

text \<open>
  The contract of the callers: \<open>SetLoggingClass\<close> only while an instance
  exists. Every other entry point may be called in any state.
\<close>

fun call_ok :: "call \<Rightarrow> state \<Rightarrow> bool" where
  "call_ok (Call_SetLoggingClass lc ap) st = (s_instance st \<noteq> None)"
| "call_ok c st = True"

fun calls_ok :: "call list \<Rightarrow> state \<Rightarrow> bool" where
  "calls_ok [] st = True"
| "calls_ok (c # cs) st =
     (call_ok c st \<and> (case run_call c st of Inl e \<Rightarrow> True | Inr st1 \<Rightarrow> calls_ok cs st1))"


subsection \<open>Three states of a running program\<close>

text \<open>
  \<open>example_state\<close>: after \<open>Create\<close> and one appended sink; instance with
  mutex 7, sinks 1 and 2, logging enabled. \<open>quiet_state\<close>: the same with
  logging switched off. \<open>twice_state\<close>: \<open>example_state\<close> after sink 5 and, once
  more, sink 2 have been appended.
\<close>

definition example_state :: state where
  "example_state =
     \<lparr>s_instance = Some \<lparr>m_logMutex = 7\<rparr>, m_pImpls = [1, 2], s_dologging = True,
      deleted = {},
      calls = [Mutex_new 7, LogImpl_new 1 ''ozw.log'' False True LogLevel_Detail]\<rparr>"

definition quiet_state :: state where
  "quiet_state = example_state\<lparr>s_dologging := False\<rparr>"

definition twice_state :: state where
  "twice_state = example_state\<lparr>m_pImpls := [1, 2, 5, 2]\<rparr>"

section \<open>Properties\<close>

subsection \<open>The loops, in closed form\<close>

lemma for_each_Inr_iff:
  "for_each f dead xs cs = Inr r \<longleftrightarrow> list_all (\<lambda>p. p \<notin> dead) xs \<and> r = cs @ map f xs"
  by (induction xs arbitrary: cs) auto

lemma for_each_Inl:
  "for_each f dead xs cs = Inl e \<Longrightarrow> \<not> list_all (\<lambda>p. p \<notin> dead) xs"
  by (induction xs arbitrary: cs) (auto split: if_splits)

lemma delete_all_Inr_iff:
  "delete_all xs dead cs = Inr r \<longleftrightarrow>
     distinct xs \<and> list_all (\<lambda>p. p \<notin> dead) xs \<and>
     r = ([], dead \<union> set xs, cs @ map Impl_delete xs)"
  by (induction xs arbitrary: dead cs) (auto simp add: list_all_iff)

lemma delete_all_Inl:
  "delete_all xs dead cs = Inl e \<Longrightarrow> \<not> (distinct xs \<and> list_all (\<lambda>p. p \<notin> dead) xs)"
  by (induction xs arbitrary: dead cs) (auto simp add: list_all_iff split: if_splits)

subsection \<open>Each entry point, in closed form\<close>

text \<open>When an entry point returns, and the state it then leaves.\<close>

lemma Write_Inr_iff:
  "Write level format args st = Inr st' \<longleftrightarrow>
     (case s_instance st of
        None \<Rightarrow> st' = st
      | Some this \<Rightarrow>
          if s_dologging st \<and> m_pImpls st \<noteq> []
          then sinks_live st \<and>
               st' = st\<lparr>calls := calls st @ Mutex_Lock (m_logMutex this) #
                      map (\<lambda>it. Impl_Write it level 0 format args) (m_pImpls st) @
                      [Mutex_Unlock (m_logMutex this)]\<rparr>
          else st' = st)"
  by (auto simp add: Write_def Let_def for_each_Inr_iff sinks_live_def
      dest: for_each_Inl split: option.split sum.split)

lemma Write_node_Inr_iff:
  "Write_node level nodeId format args st = Inr st' \<longleftrightarrow>
     (case s_instance st of
        None \<Rightarrow> st' = st
      | Some this \<Rightarrow>
          if s_dologging st \<and> m_pImpls st \<noteq> []
          then sinks_live st \<and>
               st' = st\<lparr>calls := calls st @
                      (if level \<noteq> LogLevel_Internal then [Mutex_Lock (m_logMutex this)] else []) @
                      map (\<lambda>it. Impl_Write it level nodeId format args) (m_pImpls st) @
                      (if level \<noteq> LogLevel_Internal then [Mutex_Unlock (m_logMutex this)] else [])\<rparr>
          else st' = st)"
  by (auto simp add: Write_node_def Let_def for_each_Inr_iff sinks_live_def
      dest: for_each_Inl split: option.split sum.split)

lemma SetLogFileName_Inr_iff:
  "SetLogFileName filename st = Inr st' \<longleftrightarrow>
     (case s_instance st of
        None \<Rightarrow> st' = st
      | Some this \<Rightarrow>
          if s_dologging st \<and> m_pImpls st \<noteq> []
          then sinks_live st \<and>
               st' = st\<lparr>calls := calls st @ Mutex_Lock (m_logMutex this) #
                      map (\<lambda>it. Impl_SetLogFileName it filename) (m_pImpls st) @
                      [Mutex_Unlock (m_logMutex this)]\<rparr>
          else st' = st)"
  by (auto simp add: SetLogFileName_def Let_def for_each_Inr_iff sinks_live_def
      dest: for_each_Inl split: option.split sum.split)

lemma Destroy_Inr_iff:
  "Destroy st = Inr st' \<longleftrightarrow>
     (case s_instance st of
        None \<Rightarrow> st' = st
      | Some this \<Rightarrow>
          distinct (m_pImpls st) \<and> sinks_live st \<and>
          st' = st\<lparr>s_instance := None, m_pImpls := [],
                   deleted := deleted st \<union> set (m_pImpls st),
                   calls := calls st @ Mutex_Release (m_logMutex this) #
                     map Impl_delete (m_pImpls st)\<rparr>)"
  by (auto simp add: Destroy_def Log_dtor_def Let_def delete_all_Inr_iff sinks_live_def
      dest: delete_all_Inl split: option.split sum.split)

lemma Destroy_Inl:
  "Destroy st = Inl e \<Longrightarrow>
     s_instance st \<noteq> None \<and> \<not> (distinct (m_pImpls st) \<and> sinks_live st)"
  by (auto simp add: Destroy_def Log_dtor_def Let_def sinks_live_def
      dest: delete_all_Inl split: option.splits sum.splits)

lemma SetLoggingClass_Inr_iff:
  "SetLoggingClass LogClass Append st = Inr r \<longleftrightarrow>
     (if Append then r = (True, st\<lparr>m_pImpls := m_pImpls st @ [LogClass]\<rparr>)
      else distinct (m_pImpls st) \<and> sinks_live st \<and>
           r = (True, st\<lparr>m_pImpls := [LogClass],
                        deleted := deleted st \<union> set (m_pImpls st),
                        calls := calls st @ map Impl_delete (m_pImpls st)\<rparr>))"
  by (auto simp add: SetLoggingClass_def delete_all_Inr_iff sinks_live_def
      dest: delete_all_Inl split: sum.split)

lemma Create_Inr_iff:
  "Create mtx impl fn ap co lv st = Inr r \<longleftrightarrow>
     (case s_instance st of
        None \<Rightarrow>
          r = (Some \<lparr>m_logMutex = mtx\<rparr>,
               if m_pImpls st = []
               then st\<lparr>s_instance := Some \<lparr>m_logMutex = mtx\<rparr>, m_pImpls := [impl],
                       s_dologging := True, deleted := deleted st - {impl},
                       calls := calls st @ [Mutex_new mtx, LogImpl_new impl fn ap co lv]\<rparr>
               else st\<lparr>s_instance := Some \<lparr>m_logMutex = mtx\<rparr>, s_dologging := True,
                       calls := calls st @ [Mutex_new mtx]\<rparr>)
      | Some old \<Rightarrow>
          distinct (m_pImpls st) \<and> sinks_live st \<and>
          r = (Some \<lparr>m_logMutex = mtx\<rparr>,
               st\<lparr>s_instance := Some \<lparr>m_logMutex = mtx\<rparr>, m_pImpls := [impl],
                  s_dologging := True,
                  deleted := (deleted st \<union> set (m_pImpls st)) - {impl},
                  calls := calls st @ Mutex_Release (m_logMutex old) #
                    map Impl_delete (m_pImpls st) @
                    [Mutex_new mtx, LogImpl_new impl fn ap co lv]\<rparr>))"
  by (auto simp add: Create_def Log_ctor_def Destroy_Inr_iff Let_def
      dest: Destroy_Inl split: option.split sum.split)

lemma SetLoggingState_bool_Inr_iff:
  "SetLoggingState_bool b st = Inr st' \<longleftrightarrow>
     (if \<not> s_dologging st \<and> b
      then Write LogLevel_Always Logging_started [] (st\<lparr>s_dologging := True\<rparr>) = Inr st'
      else st' = st\<lparr>s_dologging := b\<rparr>)"
  by (auto simp add: SetLoggingState_bool_def Let_def)

lemma SetLoggingState_level_Inr_iff:
  "SetLoggingState_level lv st = Inr st' \<longleftrightarrow>
     (if LogLevel_val lv > LogLevel_val LogLevel_Always
      then (case s_instance st of
              None \<Rightarrow> st' = st\<lparr>s_dologging := True\<rparr>
            | Some this \<Rightarrow>
                if m_pImpls st = [] then st' = st\<lparr>s_dologging := True\<rparr>
                else sinks_live st \<and>
                     st' = st\<lparr>s_dologging := True,
                        calls := calls st @ Mutex_Lock (m_logMutex this) #
                          map (\<lambda>it. Impl_SetLoggingState it lv) (m_pImpls st) @
                          Mutex_Unlock (m_logMutex this) #
                          (if s_dologging st then []
                           else Mutex_Lock (m_logMutex this) #
                                map (\<lambda>it. Impl_Write it LogLevel_Always 0 Logging_started [])
                                  (m_pImpls st) @
                                [Mutex_Unlock (m_logMutex this)])\<rparr>)
      else st' = st\<lparr>s_dologging := False\<rparr>)"
  by (auto simp add: SetLoggingState_level_def Write_Inr_iff for_each_Inr_iff Let_def
      sinks_live_def dest: for_each_Inl split: option.split sum.split)








subsection \<open>The example states are reached\<close>

lemma example_state_reached:
  "run_calls [Call_Create 7 1 ''ozw.log'' False True LogLevel_Detail,
              Call_SetLoggingClass 2 True] initial_state = Inr example_state"
  by (simp add: example_state_def initial_state_def Create_def Log_ctor_def SetLoggingClass_def)

lemma quiet_state_reached:
  "run_call (Call_SetLoggingState_bool False) example_state = Inr quiet_state"
  by (simp add: quiet_state_def example_state_def SetLoggingState_bool_def)

lemma twice_state_reached:
  "run_calls [Call_SetLoggingClass 5 True, Call_SetLoggingClass 2 True] example_state =
     Inr twice_state"
  by (simp add: twice_state_def example_state_def SetLoggingClass_def)

subsection \<open>Frame, invariant, termination\<close>



lemma Write_call_gated:
  "is_Write_call c \<Longrightarrow> s_instance st = None \<or> \<not> s_dologging st \<or> m_pImpls st = [] \<Longrightarrow>
     run_call c st = Inr st"
  by (cases c) (auto simp add: Write_Inr_iff Write_node_Inr_iff split: option.split)

lemma Write_calls_gated:
  "list_all is_Write_call cs \<Longrightarrow> s_instance st = None \<or> \<not> s_dologging st \<or> m_pImpls st = [] \<Longrightarrow>
     run_calls cs st = Inr st"
  by (induction cs) (simp_all add: Write_call_gated)

text \<open>
  The invariant holds initially and after every call the contract allows,
  hence in every state a program that keeps the contract can reach.
\<close>

lemma log_inv_initial: "log_inv initial_state"
  by (simp add: log_inv_def initial_state_def)

lemma log_inv_run_call:
  "log_inv st \<Longrightarrow> call_ok c st \<Longrightarrow> run_call c st = Inr st' \<Longrightarrow> log_inv st'"
  by (cases c)
     (auto simp add: log_inv_def Create_Inr_iff Destroy_Inr_iff SetLoggingClass_Inr_iff
        SetLoggingState_bool_Inr_iff SetLoggingState_level_Inr_iff Write_Inr_iff
        Write_node_Inr_iff SetLogFileName_Inr_iff map_sum_def
        split: option.splits if_splits sum.splits)

lemma log_inv_run_calls:
  "log_inv st \<Longrightarrow> calls_ok cs st \<Longrightarrow> run_calls cs st = Inr st' \<Longrightarrow> log_inv st'"
proof (induction cs arbitrary: st)
  case Nil
  then show ?case by simp
next
  case (Cons c cs)
  from Cons.prems obtain st1 where r: "run_call c st = Inr st1" and rs: "run_calls cs st1 = Inr st'"
    by (auto split: sum.splits)
  from Cons.prems r have ok: "call_ok c st" and oks: "calls_ok cs st1"
    by simp_all
  from log_inv_run_call [OF Cons.prems(1) ok r] have "log_inv st1" .
  from Cons.IH [OF this oks rs] show ?case .
qed

lemma log_inv_reachable:
  "calls_ok cs initial_state \<Longrightarrow> run_calls cs initial_state = Inr st \<Longrightarrow> log_inv st"
  by (rule log_inv_run_calls [OF log_inv_initial])






subsection \<open>Write\<close>

text \<open>
  C1. If no instance exists, or the enabled flag is false, or the sink
  vector is empty, then \<open>Write\<close> (either overload, any level, format and
  arguments) returns and leaves the state it was given: no call on a sink or
  on the mutex is recorded, nothing fails, no variable changes. The same
  holds for any sequence of \<open>Write\<close> calls made in such a state.
\<close>

theorem Write_gated_noop:
  assumes "s_instance st = None \<or> \<not> s_dologging st \<or> m_pImpls st = []"
  shows "Write level format args st = Inr st \<and>
         Write_node level nodeId format args st = Inr st \<and>
         (list_all is_Write_call cs \<longrightarrow> run_calls cs st = Inr st)"
  using assms Write_calls_gated [of cs st]
  by (auto simp add: Write_Inr_iff Write_node_Inr_iff split: option.split)

theorem Write_gated_noop_witness:
  "\<not> s_dologging quiet_state \<and>
   Write LogLevel_Error ''node failed'' [] quiet_state = Inr quiet_state \<and>
   Write_node LogLevel_Error 5 ''node failed'' [] quiet_state = Inr quiet_state \<and>
   run_calls [Call_Write LogLevel_Info ''a'' [], Call_Write_node LogLevel_Internal 3 ''b'' []]
     quiet_state = Inr quiet_state"
proof -
  have q: "\<not> s_dologging quiet_state"
    by (simp add: quiet_state_def)
  then have h: "s_instance quiet_state = None \<or> \<not> s_dologging quiet_state \<or>
      m_pImpls quiet_state = []"
    by simp
  have w: "list_all is_Write_call
     [Call_Write LogLevel_Info ''a'' [], Call_Write_node LogLevel_Internal 3 ''b'' []]"
    by simp
  from q w Write_gated_noop [OF h, where level = LogLevel_Error and format = "''node failed''"
      and args = "[]" and nodeId = 5
      and cs = "[Call_Write LogLevel_Info ''a'' [], Call_Write_node LogLevel_Internal 3 ''b'' []]"]
  show ?thesis by blast
qed

text \<open>
  C2, as stated, fails for the first overload: it locks and unlocks the
  mutex at every level, \<open>LogLevel_Internal\<close> included (its \<open>Lock\<close> carries
  the remark "double locks if recursive"). Only the overload with a node id
  tests the level. In the state reached by \<open>Create\<close> and one appended sink,
  an Internal-level \<open>Write\<close> without node id records \<open>Lock\<close>, the two sink
  writes and \<open>Unlock\<close>.
\<close>

theorem Write_Internal_first_overload_locks:
  "s_instance example_state = Some \<lparr>m_logMutex = 7\<rparr> \<and> s_dologging example_state \<and>
   m_pImpls example_state = [1, 2] \<and>
   Write LogLevel_Internal ''queued'' [] example_state =
     Inr (example_state\<lparr>calls := calls example_state @
       [Mutex_Lock 7,
        Impl_Write 1 LogLevel_Internal 0 ''queued'' [],
        Impl_Write 2 LogLevel_Internal 0 ''queued'' [],
        Mutex_Unlock 7]\<rparr>)"
  by (simp add: example_state_def Write_Inr_iff sinks_live_def)

text \<open>
  C2, amended. With an instance, logging enabled and a non-empty vector of
  live sinks, a \<open>Write\<close> at the Internal level forwards the message to every
  sink in order and changes nothing else. The overload with a node id does
  so with no call on the mutex; the overload without a node id locks the
  mutex before the fan-out and unlocks it after, as at any other level. If a
  registered sink has been deleted, neither overload returns.
\<close>

theorem Write_Internal_forwarding:
  assumes "s_instance st = Some this" and "s_dologging st" and "m_pImpls st \<noteq> []"
  shows "(sinks_live st \<longrightarrow>
            Write_node LogLevel_Internal nodeId format args st =
              Inr (st\<lparr>calls := calls st @
                map (\<lambda>it. Impl_Write it LogLevel_Internal nodeId format args) (m_pImpls st)\<rparr>) \<and>
            Write LogLevel_Internal format args st =
              Inr (st\<lparr>calls := calls st @ Mutex_Lock (m_logMutex this) #
                map (\<lambda>it. Impl_Write it LogLevel_Internal 0 format args) (m_pImpls st) @
                [Mutex_Unlock (m_logMutex this)]\<rparr>)) \<and>
         (\<not> sinks_live st \<longrightarrow>
            isl (Write_node LogLevel_Internal nodeId format args st) \<and>
            isl (Write LogLevel_Internal format args st))"
proof -
  have "isl (Write_node LogLevel_Internal nodeId format args st)" if "\<not> sinks_live st"
    using that assms
    by (cases "Write_node LogLevel_Internal nodeId format args st")
       (simp_all add: Write_node_Inr_iff)
  moreover have "isl (Write LogLevel_Internal format args st)" if "\<not> sinks_live st"
    using that assms
    by (cases "Write LogLevel_Internal format args st") (simp_all add: Write_Inr_iff)
  ultimately show ?thesis
    using assms by (simp add: Write_Inr_iff Write_node_Inr_iff)
qed

theorem Write_Internal_forwarding_witness:
  "s_instance example_state = Some \<lparr>m_logMutex = 7\<rparr> \<and> s_dologging example_state \<and>
   m_pImpls example_state \<noteq> [] \<and> sinks_live example_state \<and>
   Write_node LogLevel_Internal 9 ''queued'' [] example_state =
     Inr (example_state\<lparr>calls := calls example_state @
       [Impl_Write 1 LogLevel_Internal 9 ''queued'' [],
        Impl_Write 2 LogLevel_Internal 9 ''queued'' []]\<rparr>) \<and>
   Write LogLevel_Internal ''queued'' [] example_state =
     Inr (example_state\<lparr>calls := calls example_state @
       [Mutex_Lock 7,
        Impl_Write 1 LogLevel_Internal 0 ''queued'' [],
        Impl_Write 2 LogLevel_Internal 0 ''queued'' [],
        Mutex_Unlock 7]\<rparr>)"
proof -
  have h1: "s_instance example_state = Some \<lparr>m_logMutex = 7\<rparr>"
    and h2: "s_dologging example_state"
    and h3: "m_pImpls example_state \<noteq> []"
    and m: "m_pImpls example_state = [1, 2]"
    and l: "sinks_live example_state"
    by (simp_all add: example_state_def sinks_live_def)
  note t = Write_Internal_forwarding [OF h1 h2 h3, of 9 "''queued''" "[]"]
  from t l have a: "Write_node LogLevel_Internal 9 ''queued'' [] example_state =
     Inr (example_state\<lparr>calls := calls example_state @
       map (\<lambda>it. Impl_Write it LogLevel_Internal 9 ''queued'' []) (m_pImpls example_state)\<rparr>)"
    and b: "Write LogLevel_Internal ''queued'' [] example_state =
     Inr (example_state\<lparr>calls := calls example_state @
       Mutex_Lock (m_logMutex \<lparr>m_logMutex = 7\<rparr>) #
       map (\<lambda>it. Impl_Write it LogLevel_Internal 0 ''queued'' []) (m_pImpls example_state) @
       [Mutex_Unlock (m_logMutex \<lparr>m_logMutex = 7\<rparr>)]\<rparr>)"
    by blast+
  from h1 h2 h3 l show ?thesis
    by (simp add: a b m)
qed

subsection \<open>SetLoggingState\<close>





text \<open>
  C10. When no instance exists or the sink vector is empty,
  \<open>SetLoggingState(LogLevel saveLevel)\<close> changes the enabled flag to
  \<open>saveLevel > LogLevel_Always\<close> and nothing else: no call reaches a sink or
  the mutex. A sink that comes later never receives \<open>saveLevel\<close>: when the
  instance is created afterwards, the only sink is the default one,
  constructed with the level given to \<open>Create\<close>, whatever \<open>saveLevel\<close> was,
  and no \<open>SetLoggingState\<close> call is made on it.
\<close>

theorem SetLoggingState_level_flag_only:
  assumes "s_instance st = None \<or> m_pImpls st = []"
  shows "SetLoggingState_level saveLevel st =
           Inr (st\<lparr>s_dologging := (LogLevel_val saveLevel > LogLevel_val LogLevel_Always)\<rparr>) \<and>
         (s_instance st = None \<and> m_pImpls st = [] \<longrightarrow>
            run_calls [Call_SetLoggingState_level saveLevel,
                       Call_Create mtx impl filename bAppend bConsoleOutput lv] st =
              Inr (st\<lparr>s_instance := Some \<lparr>m_logMutex = mtx\<rparr>, m_pImpls := [impl],
                 s_dologging := True, deleted := deleted st - {impl},
                 calls := calls st @
                   [Mutex_new mtx, LogImpl_new impl filename bAppend bConsoleOutput lv]\<rparr>))"
proof -
  from assms have a: "SetLoggingState_level saveLevel st =
      Inr (st\<lparr>s_dologging := (LogLevel_val saveLevel > LogLevel_val LogLevel_Always)\<rparr>)"
    by (auto simp add: SetLoggingState_level_Inr_iff split: option.split)
  have "Create mtx impl filename bAppend bConsoleOutput lv
          (st\<lparr>s_dologging := (LogLevel_val saveLevel > LogLevel_val LogLevel_Always)\<rparr>) =
        Inr (Some \<lparr>m_logMutex = mtx\<rparr>,
             st\<lparr>s_instance := Some \<lparr>m_logMutex = mtx\<rparr>, m_pImpls := [impl],
                 s_dologging := True, deleted := deleted st - {impl},
                 calls := calls st @
                   [Mutex_new mtx, LogImpl_new impl filename bAppend bConsoleOutput lv]\<rparr>)"
    if "s_instance st = None" and "m_pImpls st = []"
    using that by (simp add: Create_Inr_iff)
  with a show ?thesis by simp
qed

theorem SetLoggingState_level_flag_only_witness:
  "s_instance initial_state = None \<and> m_pImpls initial_state = [] \<and>
   SetLoggingState_level LogLevel_StreamDetail initial_state =
     Inr (initial_state\<lparr>s_dologging := True\<rparr>) \<and>
   run_calls [Call_SetLoggingState_level LogLevel_StreamDetail,
              Call_Create 7 1 ''ozw.log'' False True LogLevel_Error] initial_state =
     Inr \<lparr>s_instance = Some \<lparr>m_logMutex = 7\<rparr>, m_pImpls = [1], s_dologging = True,
          deleted = {},
          calls = [Mutex_new 7, LogImpl_new 1 ''ozw.log'' False True LogLevel_Error]\<rparr>"
proof -
  have i: "s_instance initial_state = None" and m: "m_pImpls initial_state = []"
    by (simp_all add: initial_state_def)
  from i have h: "s_instance initial_state = None \<or> m_pImpls initial_state = []" ..
  note t = SetLoggingState_level_flag_only [OF h, where saveLevel = LogLevel_StreamDetail
      and mtx = 7 and impl = 1 and filename = "''ozw.log''" and bAppend = False
      and bConsoleOutput = True and lv = LogLevel_Error]
  from t have a: "SetLoggingState_level LogLevel_StreamDetail initial_state =
     Inr (initial_state\<lparr>s_dologging := True\<rparr>)"
    by simp
  from t i m have "run_calls [Call_SetLoggingState_level LogLevel_StreamDetail,
              Call_Create 7 1 ''ozw.log'' False True LogLevel_Error] initial_state =
      Inr (initial_state\<lparr>s_instance := Some \<lparr>m_logMutex = 7\<rparr>, m_pImpls := [1],
         s_dologging := True, deleted := deleted initial_state - {1},
         calls := calls initial_state @
           [Mutex_new 7, LogImpl_new 1 ''ozw.log'' False True LogLevel_Error]\<rparr>)"
    by blast
  then have b: "run_calls [Call_SetLoggingState_level LogLevel_StreamDetail,
              Call_Create 7 1 ''ozw.log'' False True LogLevel_Error] initial_state =
     Inr \<lparr>s_instance = Some \<lparr>m_logMutex = 7\<rparr>, m_pImpls = [1], s_dologging = True,
          deleted = {},
          calls = [Mutex_new 7, LogImpl_new 1 ''ozw.log'' False True LogLevel_Error]\<rparr>"
    by (simp add: initial_state_def)
  from i m a b show ?thesis by blast
qed

subsection \<open>Create and Destroy\<close>

text \<open>
  C5, as stated, fails for a prior state whose vector holds a sink twice.
  Four calls from the initial state register sink 2 twice; the teardown that
  \<open>Create\<close> then runs deletes sinks 1, 2 and 5 and meets sink 2 again: a
  second \<open>delete\<close> of the same object, and \<open>Create\<close> does not return.
\<close>

theorem Create_twice_registered_fails:
  "run_calls [Call_Create 7 1 ''ozw.log'' False True LogLevel_Detail,
              Call_SetLoggingClass 2 True, Call_SetLoggingClass 5 True,
              Call_SetLoggingClass 2 True] initial_state = Inr twice_state \<and>
   s_instance twice_state = Some \<lparr>m_logMutex = 7\<rparr> \<and>
   m_pImpls twice_state = [1, 2, 5, 2] \<and>
   Create 8 3 ''new.log'' True False LogLevel_Debug twice_state = Inl (Double_delete 2)"
  by (simp add: twice_state_def example_state_def initial_state_def Create_def Log_ctor_def
      SetLoggingClass_def Destroy_def Log_dtor_def)

text \<open>
  C5, amended. Whenever \<open>Create\<close> returns there is an instance (the one
  returned, holding the new mutex) and the enabled flag is true. It returns
  when no instance exists. When an instance exists and the registered sinks
  are live and pairwise distinct, it returns, and the calls made are, in
  this order: release of the old mutex, \<open>delete\<close> of every sink registered
  before, once each and front to back, then construction of the new mutex
  and of the new default sink, which is the only sink left.
\<close>

theorem Create_replaces_instance:
  "(\<forall>r. Create mtx impl filename bAppend bConsoleOutput saveLevel st = Inr r \<longrightarrow>
      fst r = Some \<lparr>m_logMutex = mtx\<rparr> \<and> s_instance (snd r) = Some \<lparr>m_logMutex = mtx\<rparr> \<and>
      s_dologging (snd r)) \<and>
   (s_instance st = None \<longrightarrow>
      (\<exists>r. Create mtx impl filename bAppend bConsoleOutput saveLevel st = Inr r)) \<and>
   (s_instance st = Some old \<and> distinct (m_pImpls st) \<and> sinks_live st \<longrightarrow>
      Create mtx impl filename bAppend bConsoleOutput saveLevel st =
        Inr (Some \<lparr>m_logMutex = mtx\<rparr>,
             st\<lparr>s_instance := Some \<lparr>m_logMutex = mtx\<rparr>, m_pImpls := [impl],
                s_dologging := True,
                deleted := (deleted st \<union> set (m_pImpls st)) - {impl},
                calls := calls st @ Mutex_Release (m_logMutex old) #
                  map Impl_delete (m_pImpls st) @
                  [Mutex_new mtx, LogImpl_new impl filename bAppend bConsoleOutput saveLevel]\<rparr>))"
proof -
  have a: "fst r = Some \<lparr>m_logMutex = mtx\<rparr> \<and> s_instance (snd r) = Some \<lparr>m_logMutex = mtx\<rparr> \<and>
      s_dologging (snd r)"
    if "Create mtx impl filename bAppend bConsoleOutput saveLevel st = Inr r" for r
    using that by (cases "s_instance st") (auto simp add: Create_Inr_iff)
  have b: "\<exists>r. Create mtx impl filename bAppend bConsoleOutput saveLevel st = Inr r"
    if "s_instance st = None"
    using that by (simp add: Create_Inr_iff)
  have c: "Create mtx impl filename bAppend bConsoleOutput saveLevel st =
        Inr (Some \<lparr>m_logMutex = mtx\<rparr>,
             st\<lparr>s_instance := Some \<lparr>m_logMutex = mtx\<rparr>, m_pImpls := [impl],
                s_dologging := True,
                deleted := (deleted st \<union> set (m_pImpls st)) - {impl},
                calls := calls st @ Mutex_Release (m_logMutex old) #
                  map Impl_delete (m_pImpls st) @
                  [Mutex_new mtx, LogImpl_new impl filename bAppend bConsoleOutput saveLevel]\<rparr>)"
    if "s_instance st = Some old" and "distinct (m_pImpls st)" and "sinks_live st"
    using that by (simp add: Create_Inr_iff)
  from a b c show ?thesis by blast
qed

theorem Create_replaces_instance_witness:
  "s_instance example_state = Some \<lparr>m_logMutex = 7\<rparr> \<and> distinct (m_pImpls example_state) \<and>
   sinks_live example_state \<and>
   Create 8 3 ''new.log'' True False LogLevel_Debug example_state =
     Inr (Some \<lparr>m_logMutex = 8\<rparr>,
          \<lparr>s_instance = Some \<lparr>m_logMutex = 8\<rparr>, m_pImpls = [3], s_dologging = True,
           deleted = {1, 2},
           calls = [Mutex_new 7, LogImpl_new 1 ''ozw.log'' False True LogLevel_Detail,
                    Mutex_Release 7, Impl_delete 1, Impl_delete 2, Mutex_new 8,
                    LogImpl_new 3 ''new.log'' True False LogLevel_Debug]\<rparr>)"
proof -
  have i: "s_instance example_state = Some \<lparr>m_logMutex = 7\<rparr>"
    and d: "distinct (m_pImpls example_state)" and l: "sinks_live example_state"
    by (simp_all add: example_state_def sinks_live_def)
  note t = Create_replaces_instance [of 8 3 "''new.log''" True False LogLevel_Debug example_state
      "\<lparr>m_logMutex = 7\<rparr>"]
  from t i d l have "Create 8 3 ''new.log'' True False LogLevel_Debug example_state =
        Inr (Some \<lparr>m_logMutex = 8\<rparr>,
             example_state\<lparr>s_instance := Some \<lparr>m_logMutex = 8\<rparr>, m_pImpls := [3],
                s_dologging := True,
                deleted := (deleted example_state \<union> set (m_pImpls example_state)) - {3},
                calls := calls example_state @ Mutex_Release (m_logMutex \<lparr>m_logMutex = 7\<rparr>) #
                  map Impl_delete (m_pImpls example_state) @
                  [Mutex_new 8, LogImpl_new 3 ''new.log'' True False LogLevel_Debug]\<rparr>)"
    by blast
  then have c: "Create 8 3 ''new.log'' True False LogLevel_Debug example_state =
     Inr (Some \<lparr>m_logMutex = 8\<rparr>,
          \<lparr>s_instance = Some \<lparr>m_logMutex = 8\<rparr>, m_pImpls = [3], s_dologging = True,
           deleted = {1, 2},
           calls = [Mutex_new 7, LogImpl_new 1 ''ozw.log'' False True LogLevel_Detail,
                    Mutex_Release 7, Impl_delete 1, Impl_delete 2, Mutex_new 8,
                    LogImpl_new 3 ''new.log'' True False LogLevel_Debug]\<rparr>)"
    by (simp add: example_state_def insert_commute)
  from i d l c show ?thesis by blast
qed

text \<open>
  C8. \<open>Destroy\<close> with no instance returns and changes nothing: the
  instance stays absent, the sink vector and the flag are as before, and no
  call is made on any sink or on the mutex.
\<close>

theorem Destroy_absent_noop:
  assumes "s_instance st = None"
  shows "Destroy st = Inr st"
  using assms by (simp add: Destroy_Inr_iff)

theorem Destroy_absent_noop_witness:
  "s_instance initial_state = None \<and> Destroy initial_state = Inr initial_state"
proof -
  have h: "s_instance initial_state = None" by (simp add: initial_state_def)
  from h Destroy_absent_noop [OF h] show ?thesis by simp
qed

text \<open>
  C9. \<open>Destroy\<close> never writes the enabled flag: \<open>GetLoggingState\<close> returns
  after \<open>Destroy\<close> what it returned before, whether an instance existed or
  not. \<open>Destroy\<close> returns whenever the registered sinks are live and pairwise
  distinct.
\<close>

theorem Destroy_keeps_flag:
  "(\<forall>st'. Destroy st = Inr st' \<longrightarrow> GetLoggingState st' = GetLoggingState st) \<and>
   (distinct (m_pImpls st) \<and> sinks_live st \<longrightarrow> (\<exists>st'. Destroy st = Inr st'))"
proof -
  have a: "GetLoggingState st' = GetLoggingState st" if "Destroy st = Inr st'" for st'
    using that by (cases "s_instance st") (auto simp add: Destroy_Inr_iff GetLoggingState_def)
  have b: "\<exists>st'. Destroy st = Inr st'" if "distinct (m_pImpls st)" and "sinks_live st"
    using that by (cases "Destroy st") (auto dest: Destroy_Inl)
  from a b show ?thesis by blast
qed

theorem Destroy_keeps_flag_witness:
  "distinct (m_pImpls example_state) \<and> sinks_live example_state \<and>
   GetLoggingState example_state \<and>
   (\<exists>st'. Destroy example_state = Inr st' \<and> s_instance st' = None \<and> GetLoggingState st')"
proof -
  have d: "distinct (m_pImpls example_state)" and l: "sinks_live example_state"
    and g: "GetLoggingState example_state"
    by (simp_all add: example_state_def sinks_live_def GetLoggingState_def)
  note t = Destroy_keeps_flag [of example_state]
  from t d l obtain st' where r: "Destroy example_state = Inr st'" by blast
  from t r g have f: "GetLoggingState st'" by blast
  from r have n: "s_instance st' = None"
    by (auto simp add: Destroy_Inr_iff example_state_def)
  from d l g r n f show ?thesis by blast
qed

subsection \<open>SetLoggingClass\<close>

text \<open>
  C6, as stated, fails when \<open>sink\<close> is one of the sinks already
  registered: the loop deletes it with the others, \<open>push_back\<close> stores the
  pointer to the deleted object, and the next \<open>Write\<close> calls through it
  instead of reaching a sink.
\<close>

theorem SetLoggingClass_reregistered_sink_dangles:
  "s_instance example_state = Some \<lparr>m_logMutex = 7\<rparr> \<and> s_dologging example_state \<and>
   m_pImpls example_state = [1, 2] \<and>
   SetLoggingClass 2 False example_state =
     Inr (True, example_state\<lparr>m_pImpls := [2], deleted := {1, 2},
                  calls := calls example_state @ [Impl_delete 1, Impl_delete 2]\<rparr>) \<and>
   Write LogLevel_Info ''hello'' []
     (example_state\<lparr>m_pImpls := [2], deleted := {1, 2},
        calls := calls example_state @ [Impl_delete 1, Impl_delete 2]\<rparr>) =
     Inl (Call_after_delete 2)"
  by (simp add: example_state_def SetLoggingClass_def Write_def insert_commute)

text \<open>
  C6, amended. With an instance, live and pairwise distinct registered
  sinks, and a live \<open>sink\<close> that is not among them,
  \<open>SetLoggingClass(sink, false)\<close> returns true, deletes every sink registered
  before, once each and front to back, and leaves the one-element vector
  \<open>[sink]\<close>; nothing else changes. A \<open>Write\<close> that follows (either overload)
  reaches \<open>sink\<close> and no other sink, if logging is enabled, and makes no call
  otherwise. Whenever \<open>SetLoggingClass\<close> returns, with either value of
  \<open>Append\<close>, it returns true.
\<close>

theorem SetLoggingClass_replace:
  assumes "s_instance st = Some this" and "distinct (m_pImpls st)" and "sinks_live st"
    and "sink \<notin> set (m_pImpls st)" and "sink \<notin> deleted st"
  shows "SetLoggingClass sink False st =
           Inr (True, st\<lparr>m_pImpls := [sink], deleted := deleted st \<union> set (m_pImpls st),
                        calls := calls st @ map Impl_delete (m_pImpls st)\<rparr>) \<and>
         Write level format args
           (st\<lparr>m_pImpls := [sink], deleted := deleted st \<union> set (m_pImpls st),
               calls := calls st @ map Impl_delete (m_pImpls st)\<rparr>) =
           Inr (if s_dologging st
                then st\<lparr>m_pImpls := [sink], deleted := deleted st \<union> set (m_pImpls st),
                        calls := calls st @ map Impl_delete (m_pImpls st) @
                          [Mutex_Lock (m_logMutex this), Impl_Write sink level 0 format args,
                           Mutex_Unlock (m_logMutex this)]\<rparr>
                else st\<lparr>m_pImpls := [sink], deleted := deleted st \<union> set (m_pImpls st),
                        calls := calls st @ map Impl_delete (m_pImpls st)\<rparr>) \<and>
         Write_node level nodeId format args
           (st\<lparr>m_pImpls := [sink], deleted := deleted st \<union> set (m_pImpls st),
               calls := calls st @ map Impl_delete (m_pImpls st)\<rparr>) =
           Inr (if s_dologging st
                then st\<lparr>m_pImpls := [sink], deleted := deleted st \<union> set (m_pImpls st),
                        calls := calls st @ map Impl_delete (m_pImpls st) @
                          (if level \<noteq> LogLevel_Internal
                           then [Mutex_Lock (m_logMutex this)] else []) @
                          [Impl_Write sink level nodeId format args] @
                          (if level \<noteq> LogLevel_Internal
                           then [Mutex_Unlock (m_logMutex this)] else [])\<rparr>
                else st\<lparr>m_pImpls := [sink], deleted := deleted st \<union> set (m_pImpls st),
                        calls := calls st @ map Impl_delete (m_pImpls st)\<rparr>) \<and>
         (\<forall>r. SetLoggingClass sink Append st = Inr r \<longrightarrow> fst r)"
  using assms
  by (auto simp add: SetLoggingClass_Inr_iff Write_Inr_iff Write_node_Inr_iff sinks_live_def)

theorem SetLoggingClass_replace_witness:
  "s_instance example_state = Some \<lparr>m_logMutex = 7\<rparr> \<and> distinct (m_pImpls example_state) \<and>
   sinks_live example_state \<and> 5 \<notin> set (m_pImpls example_state) \<and>
   5 \<notin> deleted example_state \<and>
   SetLoggingClass 5 False example_state =
     Inr (True, example_state\<lparr>m_pImpls := [5], deleted := {1, 2},
                  calls := calls example_state @ [Impl_delete 1, Impl_delete 2]\<rparr>) \<and>
   Write LogLevel_Info ''hello'' []
     (example_state\<lparr>m_pImpls := [5], deleted := {1, 2},
        calls := calls example_state @ [Impl_delete 1, Impl_delete 2]\<rparr>) =
     Inr (example_state\<lparr>m_pImpls := [5], deleted := {1, 2},
        calls := calls example_state @
          [Impl_delete 1, Impl_delete 2, Mutex_Lock 7,
           Impl_Write 5 LogLevel_Info 0 ''hello'' [], Mutex_Unlock 7]\<rparr>)"
proof -
  have i: "s_instance example_state = Some \<lparr>m_logMutex = 7\<rparr>"
    and d: "distinct (m_pImpls example_state)" and l: "sinks_live example_state"
    and n: "5 \<notin> set (m_pImpls example_state)" and f: "5 \<notin> deleted example_state"
    and m: "m_pImpls example_state = [1, 2]" and e: "s_dologging example_state"
    and z: "deleted example_state = {}"
    by (simp_all add: example_state_def sinks_live_def)
  have u: "deleted example_state \<union> set (m_pImpls example_state) = {1, 2}"
    by (simp add: m z)
  note t = SetLoggingClass_replace [OF i d l n f, of LogLevel_Info "''hello''" "[]" 0 False,
      unfolded u]
  from conjunct1 [OF t] have a: "SetLoggingClass 5 False example_state =
     Inr (True, example_state\<lparr>m_pImpls := [5], deleted := {1, 2},
                  calls := calls example_state @ [Impl_delete 1, Impl_delete 2]\<rparr>)"
    by (simp add: m)
  from conjunct1 [OF conjunct2 [OF t]] have b: "Write LogLevel_Info ''hello'' []
     (example_state\<lparr>m_pImpls := [5], deleted := {1, 2},
        calls := calls example_state @ [Impl_delete 1, Impl_delete 2]\<rparr>) =
     Inr (example_state\<lparr>m_pImpls := [5], deleted := {1, 2},
        calls := calls example_state @
          [Impl_delete 1, Impl_delete 2, Mutex_Lock 7,
           Impl_Write 5 LogLevel_Info 0 ''hello'' [], Mutex_Unlock 7]\<rparr>)"
    by (simp add: m e)
  from i d l n f a b show ?thesis by blast
qed



end
